theory Spec2Isabelle
  imports Complex_Main "HOL-Library.Sublist" "HOL-Library.Multiset"
begin

section \<open>Data model\<close>

text \<open>
  The repository is a TypeScript crime-mapping application. Its algorithmic core is
  \<^verbatim>\<open>utils/geoUtils.ts\<close> (grid hotspots, haversine distance, radius search,
  clustering, bounds, centroid) and \<^verbatim>\<open>services/insightService.ts\<close>
  (histograms and peak hours).

  A JavaScript \<^verbatim>\<open>number\<close> is modelled as a \<^typ>\<open>real\<close>: comparisons and
  arithmetic are exact, and there is no NaN or infinity. Counts and array lengths are
  natural numbers. Concrete inputs used below are dyadic rationals, on which IEEE double
  arithmetic agrees with the exact one.
\<close>

type_synonym number = real

text \<open>
  A \<^verbatim>\<open>Date\<close> is observed by the core only through \<^verbatim>\<open>getDay()\<close>
  (0 = Sunday .. 6 = Saturday) and \<^verbatim>\<open>getMonth()\<close> (0 = January .. 11 = December);
  the record keeps these two observations.
\<close>

record Date =
  getDay :: nat
  getMonth :: nat

text \<open>The interface \<^verbatim>\<open>FIR\<close> of \<^verbatim>\<open>types.ts\<close>, as the tests construct it
  (field \<^verbatim>\<open>id\<close> is named \<open>fir_id\<close> here).\<close>

record FIR =
  fir_id :: string
  crimeType :: string
  date :: Date
  time :: string
  latitude :: number
  longitude :: number
  area :: string
  zone :: string
  policeStation :: string
  description :: "string option"
  isAccident :: bool
  isSensitiveZone :: bool

section \<open>Distance primitive\<close>

text \<open>\<^verbatim>\<open>function toRad(degrees) { return (degrees * Math.PI) / 180; }\<close>\<close>

definition toRad :: "number \<Rightarrow> number" where
  "toRad degrees = (degrees * pi) / 180"

text \<open>\<^verbatim>\<open>Math.atan2(y, x)\<close> on finite arguments (the result at the origin is 0).\<close>

definition atan2 :: "number \<Rightarrow> number \<Rightarrow> number" where
  "atan2 y x =
     (if 0 < x then arctan (y / x)
      else if x < 0 then (if 0 \<le> y then arctan (y / x) + pi else arctan (y / x) - pi)
      else if 0 < y then pi / 2
      else if y < 0 then - (pi / 2)
      else 0)"

text \<open>
  \<^verbatim>\<open>haversineDistance(lat1, lng1, lat2, lng2)\<close>: the local constants \<open>R\<close>, \<open>dLat\<close>,
  \<open>dLng\<close>, \<open>a\<close> and \<open>c\<close> of the source are the \<open>let\<close>-bound variables.
\<close>

definition haversineDistance :: "number \<Rightarrow> number \<Rightarrow> number \<Rightarrow> number \<Rightarrow> number" where
  "haversineDistance lat1 lng1 lat2 lng2 =
     (let R = 6371;
          dLat = toRad (lat2 - lat1);
          dLng = toRad (lng2 - lng1);
          a = sin (dLat / 2) * sin (dLat / 2) +
              cos (toRad lat1) * cos (toRad lat2) * sin (dLng / 2) * sin (dLng / 2);
          c = 2 * atan2 (sqrt a) (sqrt (1 - a))
      in R * c)"

section \<open>Proximity engine: radius search\<close>

text \<open>\<^verbatim>\<open>findNearbyFIRs\<close> is \<^verbatim>\<open>firs.filter(fir => distance(fir) <= radiusKm)\<close>.\<close>

definition findNearbyFIRs :: "FIR list \<Rightarrow> number \<Rightarrow> number \<Rightarrow> number \<Rightarrow> FIR list" where
  "findNearbyFIRs firs centerLat centerLng radiusKm =
     filter (\<lambda>fir.
        let distance = haversineDistance centerLat centerLng (latitude fir) (longitude fir)
        in distance \<le> radiusKm) firs"

section \<open>Array sort\<close>

text \<open>
  \<^verbatim>\<open>Array.prototype.sort(compareFn)\<close> is a stable sort: an element \<open>x\<close> is placed
  before \<open>y\<close> when \<open>compareFn(x, y) \<le> 0\<close> and \<open>x\<close> came first. It is modelled as the
  stable insertion sort, elements inserted from the right, each one in front of the first
  element it does not compare greater than. Every comparator of the source is a
  difference of two counts, which is an \<^typ>\<open>int\<close> here.
\<close>

fun sort_insert :: "('a \<Rightarrow> 'a \<Rightarrow> int) \<Rightarrow> 'a \<Rightarrow> 'a list \<Rightarrow> 'a list" where
  "sort_insert compareFn x [] = [x]"
| "sort_insert compareFn x (y # ys) =
     (if compareFn x y \<le> 0 then x # y # ys else y # sort_insert compareFn x ys)"

definition array_sort :: "('a \<Rightarrow> 'a \<Rightarrow> int) \<Rightarrow> 'a list \<Rightarrow> 'a list" where
  "array_sort compareFn xs = foldr (sort_insert compareFn) xs []"

text \<open>
  The order that the comparators \<^verbatim>\<open>(a, b) => b.count - a.count\<close> of the source
  establish together with stability: larger count first, and among equal counts the
  order \<open>tie\<close> that the input had.
\<close>

definition countDescThen :: "('a \<Rightarrow> nat) \<Rightarrow> ('a \<Rightarrow> 'a \<Rightarrow> bool) \<Rightarrow> 'a \<Rightarrow> 'a \<Rightarrow> bool" where
  "countDescThen key tie a b \<longleftrightarrow> key b < key a \<or> (key a = key b \<and> tie a b)"

section \<open>Proximity engine: clustering\<close>

text \<open>
  \<^verbatim>\<open>clusterFIRs(firs, radiusKm)\<close> keeps two mutable locals, the array \<open>clusters\<close> and
  the set \<open>visited\<close> of record ids; the model passes the pair through both loops.

  \<open>absorb\<close> is the body of the inner loop
  \<^verbatim>\<open>nearby.forEach(nearFir => { if (!visited.has(nearFir.id)) { cluster.push(nearFir); visited.add(nearFir.id); } })\<close>,
  \<open>clusterStep\<close> the body of the outer \<^verbatim>\<open>firs.forEach\<close>, and the result is
  \<^verbatim>\<open>clusters.sort((a, b) => b.length - a.length)\<close>.
\<close>

definition absorb :: "FIR \<Rightarrow> FIR list \<times> string set \<Rightarrow> FIR list \<times> string set" where
  "absorb nearFir = (\<lambda>(cluster, visited).
     if fir_id nearFir \<notin> visited
     then (cluster @ [nearFir], insert (fir_id nearFir) visited)
     else (cluster, visited))"

definition clusterStep ::
  "FIR list \<Rightarrow> number \<Rightarrow> FIR \<Rightarrow> FIR list list \<times> string set \<Rightarrow> FIR list list \<times> string set" where
  "clusterStep firs radiusKm fir = (\<lambda>(clusters, visited).
     if fir_id fir \<in> visited then (clusters, visited)
     else
       let nearby = findNearbyFIRs firs (latitude fir) (longitude fir) radiusKm;
           (cluster, visited') = fold absorb nearby ([fir], insert (fir_id fir) visited)
       in (if length cluster > 0 then clusters @ [cluster] else clusters, visited'))"

definition clusterFIRs :: "FIR list \<Rightarrow> number \<Rightarrow> FIR list list" where
  "clusterFIRs firs radiusKm =
     (let (clusters, visited) = fold (clusterStep firs radiusKm) firs ([], {})
      in array_sort (\<lambda>a b. int (length b) - int (length a)) clusters)"

text \<open>
  The invariant of the outer loop, used in the proofs: the visited ids are the ids of the
  records placed so far, no id was placed twice, every placed record is an input record,
  and no cluster is empty.
\<close>

definition cluster_inv :: "FIR list \<Rightarrow> FIR list list \<times> string set \<Rightarrow> bool" where
  "cluster_inv firs = (\<lambda>(clusters, visited).
     visited = fir_id ` set (concat clusters) \<and>
     distinct (map fir_id (concat clusters)) \<and>
     set (concat clusters) \<subseteq> set firs \<and> [] \<notin> set clusters)"

section \<open>Grid partitioner\<close>

text \<open>
  The interfaces \<^verbatim>\<open>GridConfig\<close> and \<^verbatim>\<open>GridCell\<close> of \<^verbatim>\<open>geoUtils.ts\<close>. Both have
  fields \<open>minLat\<close>, \<open>maxLat\<close>, \<open>minLng\<close>, \<open>maxLng\<close>; they are told apart by the record
  name (\<open>GridConfig.minLat\<close>, \<open>GridCell.minLat\<close>). The field \<^verbatim>\<open>id\<close> of a cell is
  \<open>cell_id\<close>.
\<close>

record GridConfig =
  latGridSize :: number
  lngGridSize :: number
  minLat :: number
  maxLat :: number
  minLng :: number
  maxLng :: number

record GridCell =
  cell_id :: string
  minLat :: number
  maxLat :: number
  minLng :: number
  maxLng :: number
  centerLat :: number
  centerLng :: number
  firCount :: nat
  firs :: "FIR list"

text \<open>\<^verbatim>\<open>DEFAULT_GRID_CONFIG\<close>, the grid over Delhi.\<close>

definition DEFAULT_GRID_CONFIG :: GridConfig where
  "DEFAULT_GRID_CONFIG =
     \<lparr>latGridSize = 0.05, lngGridSize = 0.05,
      GridConfig.minLat = 28.4, GridConfig.maxLat = 28.9,
      GridConfig.minLng = 76.8, GridConfig.maxLng = 77.4\<rparr>"

text \<open>The decimal numeral that a template literal \<^verbatim>\<open>`${cellId}`\<close> prints for a
  non-negative integer.\<close>

fun string_of_nat :: "nat \<Rightarrow> string" where
  "string_of_nat n =
     (if n < 10 then [''0123456789'' ! n]
      else string_of_nat (n div 10) @ [''0123456789'' ! (n mod 10)])"

declare string_of_nat.simps [simp del]

text \<open>The cell pushed by the body of the inner loop of \<^verbatim>\<open>createGrid\<close>, for the loop
  variables \<open>lat\<close>, \<open>lng\<close> and the counter \<open>cellId\<close>.\<close>

definition newCell :: "GridConfig \<Rightarrow> nat \<Rightarrow> number \<Rightarrow> number \<Rightarrow> GridCell" where
  "newCell config cellId lat lng =
     (let minLat = lat;
          maxLat = lat + latGridSize config;
          minLng = lng;
          maxLng = lng + lngGridSize config
      in \<lparr>cell_id = ''GRID_'' @ string_of_nat cellId,
          GridCell.minLat = minLat, GridCell.maxLat = maxLat,
          GridCell.minLng = minLng, GridCell.maxLng = maxLng,
          centerLat = (minLat + maxLat) / 2, centerLng = (minLng + maxLng) / 2,
          firCount = 0, firs = []\<rparr>)"

text \<open>
  \<^verbatim>\<open>createGrid\<close> is two nested \<^verbatim>\<open>for\<close> loops over \<open>lat\<close> and \<open>lng\<close>, pushing to
  \<open>cells\<close> and incrementing \<open>cellId\<close>. A loop whose step is not positive does not end
  (the loop variable never reaches the maximum), so each loop is a partial function and
  \<open>None\<close> stands for a call that does not return.

  \<open>createGrid_lng\<close> is the inner loop from the current \<open>lng\<close>, \<open>createGrid_lat\<close> the
  outer loop from the current \<open>lat\<close>.

  The loop variables are sums of the cell size, which doubles round: with
  \<open>DEFAULT_GRID_CONFIG\<close> the running program reaches longitude 77.39999999999996 after
  twelve steps and so builds a thirteenth column. The statements about the grid below
  are therefore about the list of cells that \<open>createGrid\<close> returns, whatever the sums
  are, and the concrete grids have cell sizes that doubles add exactly.
\<close>

partial_function (option) createGrid_lng ::
  "GridConfig \<Rightarrow> number \<Rightarrow> number \<Rightarrow> GridCell list \<Rightarrow> nat \<Rightarrow> (GridCell list \<times> nat) option" where
  "createGrid_lng config lat lng cells cellId =
     (if lng < GridConfig.maxLng config
      then createGrid_lng config lat (lng + lngGridSize config)
             (cells @ [newCell config cellId lat lng]) (cellId + 1)
      else Some (cells, cellId))"

partial_function (option) createGrid_lat ::
  "GridConfig \<Rightarrow> number \<Rightarrow> GridCell list \<Rightarrow> nat \<Rightarrow> GridCell list option" where
  "createGrid_lat config lat cells cellId =
     (if lat < GridConfig.maxLat config
      then Option.bind (createGrid_lng config lat (GridConfig.minLng config) cells cellId)
             (\<lambda>(cells', cellId'). createGrid_lat config (lat + latGridSize config) cells' cellId')
      else Some cells)"

declare createGrid_lng.simps [code] createGrid_lat.simps [code]

definition createGrid :: "GridConfig \<Rightarrow> GridCell list option" where
  "createGrid config = createGrid_lat config (GridConfig.minLat config) [] 0"

text \<open>
  What the loops establish for the cells they push, used in the proofs: a pushed cell is
  empty, its bounds are the loop variables and the loop variables plus the cell size, the
  loop guards held when it was pushed, and the ids are numbered consecutively from the
  counter.
\<close>

definition gridId :: "nat \<Rightarrow> string" where
  "gridId cellId = ''GRID_'' @ string_of_nat cellId"

definition pushedCell :: "GridConfig \<Rightarrow> GridCell \<Rightarrow> bool" where
  "pushedCell config cell \<longleftrightarrow>
     firs cell = [] \<and> GridCell.firCount cell = 0 \<and>
     GridCell.maxLat cell = GridCell.minLat cell + latGridSize config \<and>
     GridCell.maxLng cell = GridCell.minLng cell + lngGridSize config \<and>
     GridCell.minLat cell < GridConfig.maxLat config \<and>
     GridCell.minLng cell < GridConfig.maxLng config"

definition pushedCells :: "GridConfig \<Rightarrow> nat \<Rightarrow> GridCell list \<Rightarrow> bool" where
  "pushedCells config cellId new \<longleftrightarrow>
     list_all (pushedCell config) new \<and>
     map cell_id new = map gridId [cellId..<cellId + length new]"

text \<open>The test of \<^verbatim>\<open>assignFIRsToGrid\<close> for a record and a cell: half-open on both
  axes.\<close>

definition cellContains :: "GridCell \<Rightarrow> FIR \<Rightarrow> bool" where
  "cellContains cell fir \<longleftrightarrow>
     latitude fir \<ge> GridCell.minLat cell \<and> latitude fir < GridCell.maxLat cell \<and>
     longitude fir \<ge> GridCell.minLng cell \<and> longitude fir < GridCell.maxLng cell"

text \<open>
  \<^verbatim>\<open>assignFIRsToGrid\<close> mutates the cells in place. \<open>assignFIR\<close> is the inner
  \<^verbatim>\<open>for (const cell of grid)\<close> loop for one record: the first cell that contains the
  record gets it (\<^verbatim>\<open>cell.firs.push(fir); cell.firCount++; break\<close>); the model returns
  the updated grid.
\<close>

fun assignFIR :: "FIR \<Rightarrow> GridCell list \<Rightarrow> GridCell list" where
  "assignFIR fir [] = []"
| "assignFIR fir (cell # grid) =
     (if cellContains cell fir
      then cell\<lparr>firs := firs cell @ [fir], firCount := GridCell.firCount cell + 1\<rparr> # grid
      else cell # assignFIR fir grid)"

definition assignFIRsToGrid :: "FIR list \<Rightarrow> GridCell list \<Rightarrow> GridCell list" where
  "assignFIRsToGrid firs grid = fold assignFIR firs grid" for firs

text \<open>A cell without its mutable part (\<open>firs\<close> and \<open>firCount\<close>): what
  \<^verbatim>\<open>assignFIRsToGrid\<close> never changes. It is used in the proofs.\<close>

definition cellFrame :: "GridCell \<Rightarrow> GridCell" where
  "cellFrame cell = cell\<lparr>firs := [], firCount := 0\<rparr>"

section \<open>Hotspot classifier\<close>

text \<open>
  \<^verbatim>\<open>ZONE_DENSITY_THRESHOLDS\<close> is imported from \<^verbatim>\<open>config/constants\<close>, which is not
  part of the sources at hand; the two thresholds are a parameter of the model.
\<close>

record DensityThresholds =
  medium :: number
  high :: number

datatype Severity = Low | Medium | High

definition classifyBySeverity :: "DensityThresholds \<Rightarrow> nat \<Rightarrow> Severity" where
  "classifyBySeverity ZONE_DENSITY_THRESHOLDS firCount =
     (if real firCount \<ge> high ZONE_DENSITY_THRESHOLDS then High
      else if real firCount \<ge> medium ZONE_DENSITY_THRESHOLDS then Medium
      else Low)" for firCount

text \<open>
  A time stamp is the number of milliseconds a \<^verbatim>\<open>Date\<close> holds. \<^verbatim>\<open>new Date()\<close> reads
  the system clock: the clock is a parameter of the model, the function giving the
  \<open>k\<close>-th reading taken during the call.
\<close>

type_synonym Timestamp = int
type_synonym Clock = "nat \<Rightarrow> Timestamp"

record Hotspot =
  zoneId :: string
  zoneName :: string
  centerLat :: number
  centerLng :: number
  firCount :: nat
  severity :: Severity
  percentage :: number
  lastUpdated :: Timestamp

text \<open>\<^verbatim>\<open>str.replace(pattern, replacement)\<close> with a string pattern: the first occurrence
  is replaced.\<close>

fun replace :: "string \<Rightarrow> string \<Rightarrow> string \<Rightarrow> string" where
  "replace pattern replacement [] = (if pattern = [] then replacement else [])"
| "replace pattern replacement (c # cs) =
     (if prefix pattern (c # cs) then replacement @ drop (length pattern) (c # cs)
      else c # replace pattern replacement cs)"

text \<open>
  The loop \<^verbatim>\<open>grid.forEach(cell => { if (cell.firCount > 0) hotspots.push({...}) })\<close> of
  \<^verbatim>\<open>detectHotspots\<close>, with the array \<open>hotspots\<close> built so far as accumulator. The
  \<open>k\<close>-th hotspot pushed takes the \<open>k\<close>-th clock reading.
\<close>

fun collectHotspots ::
  "DensityThresholds \<Rightarrow> Clock \<Rightarrow> nat \<Rightarrow> GridCell list \<Rightarrow> Hotspot list \<Rightarrow> Hotspot list" where
  "collectHotspots thresholds clock totalFIRs [] hotspots = hotspots"
| "collectHotspots thresholds clock totalFIRs (cell # grid) hotspots =
     collectHotspots thresholds clock totalFIRs grid
       (if GridCell.firCount cell > 0
        then hotspots @
          [\<lparr>zoneId = cell_id cell,
            zoneName = ''Zone '' @ replace ''GRID_'' '''' (cell_id cell),
            centerLat = GridCell.centerLat cell,
            centerLng = GridCell.centerLng cell,
            firCount = GridCell.firCount cell,
            severity = classifyBySeverity thresholds (GridCell.firCount cell),
            percentage = (real (GridCell.firCount cell) / real totalFIRs) * 100,
            lastUpdated = clock (length hotspots)\<rparr>]
        else hotspots)"

text \<open>
  \<^verbatim>\<open>detectHotspots(firs, config)\<close>: empty input returns \<^verbatim>\<open>[]\<close> before the grid is
  built; otherwise the grid is created and filled, the non-empty cells become hotspots,
  and the result is \<^verbatim>\<open>hotspots.sort((a, b) => b.firCount - a.firCount)\<close>.
\<close>

definition detectHotspots ::
  "DensityThresholds \<Rightarrow> Clock \<Rightarrow> FIR list \<Rightarrow> GridConfig \<Rightarrow> Hotspot list option" where
  "detectHotspots thresholds clock firs config =
     (if length firs = 0 then Some []
      else Option.bind (createGrid config) (\<lambda>grid.
        let grid' = assignFIRsToGrid firs grid;
            totalFIRs = length firs;
            hotspots = collectHotspots thresholds clock totalFIRs grid' []
        in Some (array_sort (\<lambda>a b. int (Hotspot.firCount b) - int (Hotspot.firCount a))
                   hotspots)))" for firs

section \<open>Bounds and centroid\<close>

record Bounds =
  minLat :: number
  maxLat :: number
  minLng :: number
  maxLng :: number

text \<open>\<^verbatim>\<open>calculateBounds\<close>: the default region for no records, else the running
  minimum and maximum, started at the first record.\<close>

definition calculateBounds :: "FIR list \<Rightarrow> Bounds" where
  "calculateBounds firs =
     (if length firs = 0
      then \<lparr>Bounds.minLat = GridConfig.minLat DEFAULT_GRID_CONFIG,
            Bounds.maxLat = GridConfig.maxLat DEFAULT_GRID_CONFIG,
            Bounds.minLng = GridConfig.minLng DEFAULT_GRID_CONFIG,
            Bounds.maxLng = GridConfig.maxLng DEFAULT_GRID_CONFIG\<rparr>
      else fold (\<lambda>fir b.
             \<lparr>Bounds.minLat = min (Bounds.minLat b) (latitude fir),
              Bounds.maxLat = max (Bounds.maxLat b) (latitude fir),
              Bounds.minLng = min (Bounds.minLng b) (longitude fir),
              Bounds.maxLng = max (Bounds.maxLng b) (longitude fir)\<rparr>)
             firs
             \<lparr>Bounds.minLat = latitude (firs ! 0), Bounds.maxLat = latitude (firs ! 0),
              Bounds.minLng = longitude (firs ! 0), Bounds.maxLng = longitude (firs ! 0)\<rparr>)"
  for firs

record LatLng =
  lat :: number
  lng :: number

text \<open>\<^verbatim>\<open>getCenter\<close>: \<^verbatim>\<open>null\<close> (here \<open>None\<close>) for no records, else the mean of the
  coordinates.\<close>

definition getCenter :: "FIR list \<Rightarrow> LatLng option" where
  "getCenter firs =
     (if length firs = 0 then None
      else
        let (sumLat, sumLng) =
              fold (\<lambda>fir (sumLat, sumLng). (sumLat + latitude fir, sumLng + longitude fir))
                firs (0, 0)
        in Some \<lparr>lat = sumLat / real (length firs), lng = sumLng / real (length firs)\<rparr>)"
  for firs


section \<open>Insight service\<close>

text \<open>
  The service of \<^verbatim>\<open>services/insightService.ts\<close>. Strings are lists of 8-bit
  characters; the digits, signs, the colon and the white space that matter below are
  ASCII.
\<close>

subsection \<open>parseInt\<close>

text \<open>
  \<^verbatim>\<open>parseInt(s, 10)\<close>: leading white space is skipped, then an optional sign, then the
  longest run of decimal digits is read; with no digit the result is \<^verbatim>\<open>NaN\<close>, which
  is \<open>None\<close> here. The value is kept exact.
\<close>

definition isWhiteSpace :: "char \<Rightarrow> bool" where
  "isWhiteSpace c \<longleftrightarrow> c \<in> set [CHR 0x09, CHR 0x0A, CHR 0x0B, CHR 0x0C, CHR 0x0D, CHR 0x20]"

definition digitValue :: "char \<Rightarrow> nat option" where
  "digitValue c =
     map_of [(CHR ''0'', 0), (CHR ''1'', 1), (CHR ''2'', 2), (CHR ''3'', 3), (CHR ''4'', 4),
             (CHR ''5'', 5), (CHR ''6'', 6), (CHR ''7'', 7), (CHR ''8'', 8), (CHR ''9'', 9)] c"

definition digitsValue :: "string \<Rightarrow> nat" where
  "digitsValue Z = foldl (\<lambda>acc c. acc * 10 + (case digitValue c of Some d \<Rightarrow> d | None \<Rightarrow> 0)) 0 Z"

definition parseInt10 :: "string \<Rightarrow> int option" where
  "parseInt10 inputString =
     (let S = dropWhile isWhiteSpace inputString;
          (sign, S') = (case S of
               [] \<Rightarrow> (1, [])
             | c # r \<Rightarrow> if c = CHR ''-'' then (- 1, r)
                        else if c = CHR ''+'' then (1, r) else (1, S));
          Z = takeWhile (\<lambda>c. digitValue c \<noteq> None) S'
      in if Z = [] then None else Some (sign * int (digitsValue Z)))"

subsection \<open>Objects used as counters\<close>

text \<open>
  Each statistic counts into a fresh object \<^verbatim>\<open>{}\<close> by
  \<^verbatim>\<open>counts[key] = (counts[key] || 0) + 1\<close>. The object is the list of its own
  properties in creation order; \<open>bump\<close> is the counting statement and \<open>countOf\<close> is the
  read \<^verbatim>\<open>counts[key] || 0\<close>. (A key that names a member of \<^verbatim>\<open>Object.prototype\<close>,
  such as \<^verbatim>\<open>constructor\<close>, would read an inherited non-number; category and area
  labels of that kind are outside the model.)
\<close>

fun bump :: "'k \<Rightarrow> ('k \<times> nat) list \<Rightarrow> ('k \<times> nat) list" where
  "bump key [] = [(key, 1)]"
| "bump key ((k, c) # counts) =
     (if k = key then (k, c + 1) # counts else (k, c) # bump key counts)"

definition countOf :: "('k \<times> nat) list \<Rightarrow> 'k \<Rightarrow> nat" where
  "countOf counts key = (case map_of counts key of None \<Rightarrow> 0 | Some c \<Rightarrow> c)"

text \<open>
  \<^verbatim>\<open>Object.entries\<close> lists the properties whose key is an array index (a canonical
  decimal numeral below \<open>2^32 - 1\<close>) first, in ascending numeric order, and then the
  others in creation order.
\<close>

definition arrayIndex :: "string \<Rightarrow> nat option" where
  "arrayIndex key =
     (if key \<noteq> [] \<and> list_all (\<lambda>c. digitValue c \<noteq> None) key \<and>
         (key = ''0'' \<or> hd key \<noteq> CHR ''0'') \<and> int (digitsValue key) < 4294967295
      then Some (digitsValue key) else None)"

definition objectEntries :: "(string \<times> nat) list \<Rightarrow> (string \<times> nat) list" where
  "objectEntries counts =
     sort_key (\<lambda>(k, c). case arrayIndex k of Some i \<Rightarrow> i | None \<Rightarrow> 0)
       (filter (\<lambda>(k, c). arrayIndex k \<noteq> None) counts) @
     filter (\<lambda>(k, c). arrayIndex k = None) counts"

subsection \<open>The statistics\<close>

record HourCount =
  hour :: nat
  count :: nat

record DayCount =
  day :: string
  count :: nat

record TypeCount =
  type :: string
  count :: nat

record MonthCount =
  month :: string
  count :: nat

record AreaCount =
  area :: string
  count :: nat

record CrimeInsight =
  peakHours :: "HourCount list"
  dayWiseTrends :: "DayCount list"
  topCrimeTypes :: "TypeCount list"
  monthlyTrends :: "MonthCount list"
  areaStatistics :: "AreaCount list"
  predictedPeakHours :: "nat list"
  highRiskDays :: "DayCount list"
  totalFIRs :: nat
  totalHotspots :: nat
  generatedAt :: Timestamp

text \<open>The key of \<^verbatim>\<open>getPeakHours\<close> for a record:
  \<^verbatim>\<open>parseInt(fir.time.split(':')[0], 10)\<close>.\<close>

definition hourOf :: "FIR \<Rightarrow> int option" where
  "hourOf fir = parseInt10 (takeWhile (\<lambda>c. c \<noteq> CHR '':'') (time fir))"

text \<open>
  \<^verbatim>\<open>getPeakHours\<close>: count by hour, then
  \<^verbatim>\<open>Array.from({ length: 24 }, (_, i) => ({ hour: i, count: hourCounts[i] || 0 }))\<close>
  sorted by \<^verbatim>\<open>(a, b) => b.count - a.count\<close>.
\<close>

definition getPeakHours :: "FIR list \<Rightarrow> HourCount list" where
  "getPeakHours firs =
     (let hourCounts = fold (\<lambda>fir hourCounts. bump (hourOf fir) hourCounts) firs []
      in array_sort (\<lambda>a b. int (HourCount.count b) - int (HourCount.count a))
           (map (\<lambda>i. \<lparr>hour = i, HourCount.count = countOf hourCounts (Some (int i))\<rparr>)
              [0..<24]))"
  for firs

definition dayNames :: "string list" where
  "dayNames = [''Sunday'', ''Monday'', ''Tuesday'', ''Wednesday'', ''Thursday'', ''Friday'',
               ''Saturday'']"

definition getDayWiseTrends :: "FIR list \<Rightarrow> DayCount list" where
  "getDayWiseTrends firs =
     (let dayCounts = fold (\<lambda>fir dayCounts. bump (getDay (date fir)) dayCounts) firs []
      in map (\<lambda>(index, day). \<lparr>day = day, DayCount.count = countOf dayCounts index\<rparr>)
           (zip [0..<length dayNames] dayNames))"
  for firs

definition getTopCrimeTypes :: "FIR list \<Rightarrow> nat \<Rightarrow> TypeCount list" where
  "getTopCrimeTypes firs limit =
     (let typeCounts = fold (\<lambda>fir typeCounts. bump (crimeType fir) typeCounts) firs []
      in take limit
           (array_sort (\<lambda>a b. int (TypeCount.count b) - int (TypeCount.count a))
              (map (\<lambda>(type, count). \<lparr>type = type, TypeCount.count = count\<rparr>)
                 (objectEntries typeCounts))))"
  for firs

definition monthNames :: "string list" where
  "monthNames = [''Jan'', ''Feb'', ''Mar'', ''Apr'', ''May'', ''Jun'',
                 ''Jul'', ''Aug'', ''Sep'', ''Oct'', ''Nov'', ''Dec'']"

definition getMonthlyTrends :: "FIR list \<Rightarrow> MonthCount list" where
  "getMonthlyTrends firs =
     (let monthCounts = fold (\<lambda>fir monthCounts. bump (getMonth (date fir)) monthCounts) firs []
      in map (\<lambda>(index, month). \<lparr>month = month, MonthCount.count = countOf monthCounts index\<rparr>)
           (zip [0..<length monthNames] monthNames))"
  for firs

definition getAreaStatistics :: "FIR list \<Rightarrow> AreaCount list" where
  "getAreaStatistics firs =
     (let areaCounts = fold (\<lambda>fir areaCounts. bump (FIR.area fir) areaCounts) firs []
      in array_sort (\<lambda>a b. int (AreaCount.count b) - int (AreaCount.count a))
           (map (\<lambda>(area, count). \<lparr>area = area, AreaCount.count = count\<rparr>)
              (objectEntries areaCounts)))"
  for firs

text \<open>\<^verbatim>\<open>getPredictedPeakHours\<close>:
  \<^verbatim>\<open>this.getPeakHours(firs).slice(0, 3).map(h => h.hour)\<close>.\<close>

definition getPredictedPeakHours :: "FIR list \<Rightarrow> nat list" where
  "getPredictedPeakHours firs =
     (let peakHours = take 3 (getPeakHours firs) in map hour peakHours)"
  for firs

text \<open>
  \<^verbatim>\<open>generateInsights\<close>. The limit of \<^verbatim>\<open>getTopCrimeTypes\<close> is its default 10, and
  \<^verbatim>\<open>generatedAt\<close> is the one clock reading of the call.
\<close>

definition generateInsights :: "Clock \<Rightarrow> FIR list \<Rightarrow> CrimeInsight" where
  "generateInsights clock firs =
     (let dayTrends = getDayWiseTrends firs;
          avgDailyCount = real (foldl (\<lambda>sum d. sum + DayCount.count d) 0 dayTrends) / 7
      in \<lparr>peakHours = getPeakHours firs,
          dayWiseTrends = dayTrends,
          topCrimeTypes = getTopCrimeTypes firs 10,
          monthlyTrends = getMonthlyTrends firs,
          areaStatistics = getAreaStatistics firs,
          predictedPeakHours = getPredictedPeakHours firs,
          highRiskDays =
            map (\<lambda>d. \<lparr>day = day d, DayCount.count = DayCount.count d\<rparr>)
              (filter (\<lambda>d. real (DayCount.count d) > avgDailyCount) dayTrends),
          totalFIRs = length firs,
          totalHotspots = 0,
          generatedAt = clock 0\<rparr>)"
  for firs

text \<open>
  The number of records of a set that fall into an hour bucket: the reading of
  ``the count of hour \<open>h\<close>'' that the statement about the predicted peak hours uses.
\<close>

definition hourCount :: "FIR list \<Rightarrow> nat \<Rightarrow> nat" where
  "hourCount firs h = length (filter (\<lambda>fir. hourOf fir = Some (int h)) firs)"
  for firs

section \<open>Sample inputs\<close>

text \<open>Two sample records used to exercise the statements: the same place, different ids.\<close>

definition sampleDate :: Date where
  "sampleDate = \<lparr>getDay = 2, getMonth = 0\<rparr>"

definition firA :: FIR where
  "firA = \<lparr>fir_id = ''FIR001'', crimeType = ''Theft'', date = sampleDate, time = ''14:30'',
            latitude = 0, longitude = 0, area = ''Downtown'', zone = ''Zone A'',
            policeStation = ''Central PS'', description = None, isAccident = False,
            isSensitiveZone = False\<rparr>"

definition firB :: FIR where
  "firB = \<lparr>fir_id = ''FIR002'', crimeType = ''Assault'', date = sampleDate, time = ''09:45'',
            latitude = 0, longitude = 0, area = ''Downtown'', zone = ''Zone A'',
            policeStation = ''Central PS'', description = None, isAccident = False,
            isSensitiveZone = False\<rparr>"

definition firDup :: FIR where
  "firDup = \<lparr>fir_id = ''FIR001'', crimeType = ''Robbery'', date = sampleDate, time = ''22:00'',
            latitude = 1, longitude = 1, area = ''Uptown'', zone = ''Zone B'',
            policeStation = ''North PS'', description = None, isAccident = False,
            isSensitiveZone = False\<rparr>"

text \<open>A unit square cut into four cells of side one half, its thresholds, a record on
  the upper latitude edge and a clock.\<close>

definition unitConfig :: GridConfig where
  "unitConfig = \<lparr>latGridSize = 1/2, lngGridSize = 1/2,
                 GridConfig.minLat = 0, GridConfig.maxLat = 1,
                 GridConfig.minLng = 0, GridConfig.maxLng = 1\<rparr>"

definition sampleThresholds :: DensityThresholds where
  "sampleThresholds = \<lparr>medium = 2, high = 5\<rparr>"


definition clock0 :: Clock where
  "clock0 k = 1000 + int k"





definition firC :: FIR where
  "firC = \<lparr>fir_id = ''FIR005'', crimeType = ''Theft'', date = sampleDate, time = ''14:59'',
            latitude = 3/4, longitude = 3/4, area = ''Uptown'', zone = ''Zone B'',
            policeStation = ''North PS'', description = None, isAccident = False,
            isSensitiveZone = False\<rparr>"


section \<open>Properties of the distance primitive and the radius search\<close>






text \<open>
  Claim C10. The radius search returns an order-preserving subsequence of its input:
  every returned record is an input record, no record occurs more often in the result
  than in the input (so a duplicate-free input gives a duplicate-free result), and the
  relative order is the input's.
\<close>

theorem findNearbyFIRs_subsequence:
  "subseq (findNearbyFIRs rs cLat cLng radiusKm) rs \<and>
   set (findNearbyFIRs rs cLat cLng radiusKm) \<subseteq> set rs \<and>
   mset (findNearbyFIRs rs cLat cLng radiusKm) \<subseteq># mset rs \<and>
   (distinct rs \<longrightarrow> distinct (findNearbyFIRs rs cLat cLng radiusKm))"
  by (simp add: findNearbyFIRs_def)

theorem findNearbyFIRs_subsequence_witness:
  "distinct [firA, firB] \<and> distinct (findNearbyFIRs [firA, firB] 0 0 0) \<and>
   subseq (findNearbyFIRs [firA, firB] 0 0 0) [firA, firB]"
proof -
  have d: "distinct [firA, firB]"
    by (simp add: firA_def firB_def)
  with findNearbyFIRs_subsequence [of "[firA, firB]" 0 0 0] show ?thesis
    by blast
qed

section \<open>Properties of sorting and clustering\<close>

lemma set_sort_insert: "set (sort_insert c x ys) = insert x (set ys)"
  by (induction ys) auto

lemma mset_sort_insert: "mset (sort_insert c x ys) = add_mset x (mset ys)"
  by (induction ys) auto

lemma mset_array_sort: "mset (array_sort c xs) = mset xs"
  by (induction xs) (auto simp: array_sort_def mset_sort_insert)

lemma set_array_sort: "set (array_sort c xs) = set xs"
  using mset_array_sort [of c xs] by (metis set_mset_mset)

lemma length_array_sort: "length (array_sort c xs) = length xs"
  using mset_array_sort [of c xs] by (metis size_mset)

lemma absorb_pair:
  "absorb x (c, v) =
     (if fir_id x \<notin> v then (c @ [x], insert (fir_id x) v) else (c, v))"
  by (simp add: absorb_def)

lemma absorb_fold:
  "\<exists>ys. fold absorb xs (c, v) = (c @ ys, v \<union> fir_id ` set ys) \<and>
        distinct (map fir_id ys) \<and> fir_id ` set ys \<inter> v = {} \<and> set ys \<subseteq> set xs \<and>
        fir_id ` set xs \<subseteq> v \<union> fir_id ` set ys"
proof (induction xs arbitrary: c v)
  case Nil
  show ?case by simp
next
  case (Cons x xs)
  show ?case
  proof (cases "fir_id x \<in> v")
    case True
    from Cons.IH [of c v] obtain ys where
      "fold absorb xs (c, v) = (c @ ys, v \<union> fir_id ` set ys)"
      "distinct (map fir_id ys)" "fir_id ` set ys \<inter> v = {}" "set ys \<subseteq> set xs"
      "fir_id ` set xs \<subseteq> v \<union> fir_id ` set ys"
      by blast
    with True show ?thesis
      by (intro exI [of _ ys]) (auto simp: absorb_pair)
  next
    case False
    from Cons.IH [of "c @ [x]" "insert (fir_id x) v"] obtain ys where ys:
      "fold absorb xs (c @ [x], insert (fir_id x) v) =
         ((c @ [x]) @ ys, insert (fir_id x) v \<union> fir_id ` set ys)"
      "distinct (map fir_id ys)" "fir_id ` set ys \<inter> insert (fir_id x) v = {}"
      "set ys \<subseteq> set xs"
      "fir_id ` set xs \<subseteq> insert (fir_id x) v \<union> fir_id ` set ys"
      by blast
    from False ys show ?thesis
      by (intro exI [of _ "x # ys"]) (auto simp: absorb_pair)
  qed
qed

lemma absorb_fold_visited:
  "fir_id ` set xs \<subseteq> v \<Longrightarrow> fold absorb xs (c, v) = (c, v)"
  by (induction xs) (auto simp: absorb_pair)

lemma findNearbyFIRs_subset: "set (findNearbyFIRs rs a b r) \<subseteq> set rs"
  by (auto simp: findNearbyFIRs_def)

lemma clusterStep_inv:
  assumes "cluster_inv rs (cs, v)" and "fir \<in> set rs"
  shows "\<exists>cs' v'. clusterStep rs r fir (cs, v) = (cs', v') \<and> cluster_inv rs (cs', v') \<and>
           v \<subseteq> v' \<and> fir_id fir \<in> v'"
proof (cases "fir_id fir \<in> v")
  case True
  with assms show ?thesis
    by (simp add: clusterStep_def)
next
  case False
  let ?near = "findNearbyFIRs rs (latitude fir) (longitude fir) r"
  from absorb_fold [of ?near "[fir]" "insert (fir_id fir) v"] obtain ys where ys:
    "fold absorb ?near ([fir], insert (fir_id fir) v) =
       ([fir] @ ys, insert (fir_id fir) v \<union> fir_id ` set ys)"
    "distinct (map fir_id ys)" "fir_id ` set ys \<inter> insert (fir_id fir) v = {}"
    "set ys \<subseteq> set ?near"
    by blast
  have step: "clusterStep rs r fir (cs, v) =
      (cs @ [fir # ys], insert (fir_id fir) v \<union> fir_id ` set ys)"
    using False ys(1) by (simp add: clusterStep_def Let_def)
  have sub: "set ys \<subseteq> set rs"
    using ys(4) findNearbyFIRs_subset by blast
  define L where "L = concat cs"
  have L: "concat (cs @ [fir # ys]) = L @ fir # ys"
    by (simp add: L_def)
  from assms(1) have v: "v = fir_id ` set L" and dL: "distinct (map fir_id L)"
    and sL: "set L \<subseteq> set rs" and ne: "[] \<notin> set cs"
    by (simp_all add: cluster_inv_def L_def)
  have i1: "insert (fir_id fir) v \<union> fir_id ` set ys = fir_id ` set (L @ fir # ys)"
    using v by auto
  have i2: "distinct (map fir_id (L @ fir # ys))"
    using dL ys(2,3) False v by auto
  have i3: "set (L @ fir # ys) \<subseteq> set rs"
    using sL sub assms(2) by auto
  have i4: "[] \<notin> set (cs @ [fir # ys])"
    using ne by simp
  have "cluster_inv rs (cs @ [fir # ys], insert (fir_id fir) v \<union> fir_id ` set ys)"
    unfolding cluster_inv_def prod.case L using i1 i2 i3 i4 by blast
  with step show ?thesis
    by auto
qed

lemma clusterFold_inv:
  assumes "cluster_inv rs st" and "set xs \<subseteq> set rs"
  shows "cluster_inv rs (fold (clusterStep rs r) xs st) \<and>
         fir_id ` set xs \<subseteq> snd (fold (clusterStep rs r) xs st) \<and>
         snd st \<subseteq> snd (fold (clusterStep rs r) xs st)"
  using assms
proof (induction xs arbitrary: st)
  case Nil
  then show ?case by simp
next
  case (Cons x xs)
  obtain cs v where st: "st = (cs, v)"
    by (cases st)
  from clusterStep_inv [of rs cs v x r] Cons.prems st obtain cs' v' where
    s: "clusterStep rs r x (cs, v) = (cs', v')" "cluster_inv rs (cs', v')"
       "v \<subseteq> v'" "fir_id x \<in> v'"
    by auto
  from Cons.IH [of "(cs', v')"] s(2) Cons.prems(2) have
    "cluster_inv rs (fold (clusterStep rs r) xs (cs', v'))"
    "fir_id ` set xs \<subseteq> snd (fold (clusterStep rs r) xs (cs', v'))"
    "v' \<subseteq> snd (fold (clusterStep rs r) xs (cs', v'))"
    by auto
  with s st show ?case
    by auto
qed

lemma clusters_partition:
  assumes "distinct (map fir_id rs)"
  shows "mset (concat (fst (fold (clusterStep rs r) rs ([], {})))) = mset rs"
    and "[] \<notin> set (fst (fold (clusterStep rs r) rs ([], {})))"
proof -
  obtain cs v where f: "fold (clusterStep rs r) rs ([], {}) = (cs, v)"
    by (cases "fold (clusterStep rs r) rs ([], {})")
  have "cluster_inv rs ([], {})"
    by (simp add: cluster_inv_def)
  from clusterFold_inv [OF this, of rs r] f have
    inv: "cluster_inv rs (cs, v)" and all: "fir_id ` set rs \<subseteq> v"
    by auto
  from inv have v: "v = fir_id ` set (concat cs)"
    and d: "distinct (map fir_id (concat cs))"
    and sub: "set (concat cs) \<subseteq> set rs" and ne: "[] \<notin> set cs"
    by (auto simp: cluster_inv_def)
  have inj: "inj_on fir_id (set rs)"
    using assms by (simp add: distinct_map)
  have "set rs \<subseteq> set (concat cs)"
  proof
    fix f assume fin: "f \<in> set rs"
    with all v obtain g where g: "g \<in> set (concat cs)" "fir_id g = fir_id f"
      by (metis (no_types, lifting) image_iff subsetD)
    with sub have "g \<in> set rs" by blast
    with inj fin g(2) have "g = f" by (auto dest: inj_onD)
    with g show "f \<in> set (concat cs)" by simp
  qed
  with sub have "set (concat cs) = set rs" by blast
  moreover have "distinct (concat cs)" using d by (simp add: distinct_map)
  moreover have "distinct rs" using assms by (simp add: distinct_map)
  ultimately have "mset (concat cs) = mset rs"
    using set_eq_iff_mset_eq_distinct by blast
  with f ne show "mset (concat (fst (fold (clusterStep rs r) rs ([], {})))) = mset rs"
    and "[] \<notin> set (fst (fold (clusterStep rs r) rs ([], {})))"
    by simp_all
qed


lemma concat_unique_index:
  "distinct (concat cs) \<Longrightarrow> x \<in> set (concat cs) \<Longrightarrow>
   \<exists>!i. i < length cs \<and> x \<in> set (cs ! i)"
proof (induction cs)
  case Nil
  then show ?case by simp
next
  case (Cons c cs)
  from Cons.prems(1) have dc: "distinct (concat cs)"
    and disj: "set c \<inter> set (concat cs) = {}"
    by simp_all
  have later: "x \<in> set (concat cs)" if "j < length cs" "x \<in> set (cs ! j)" for j
    using that by (auto intro: nth_mem)
  show ?case
  proof (cases "x \<in> set c")
    case True
    have "i = 0" if "i < length (c # cs)" "x \<in> set ((c # cs) ! i)" for i
    proof (cases i)
      case 0
      then show ?thesis .
    next
      case (Suc j)
      with that later [of j] have "x \<in> set (concat cs)" by simp
      with True disj show ?thesis by blast
    qed
    with True show ?thesis
      by (intro ex1I [of _ 0]) auto
  next
    case False
    with Cons.prems(2) have "x \<in> set (concat cs)" by simp
    from Cons.IH [OF dc this] obtain j where
      j: "j < length cs" "x \<in> set (cs ! j)"
      and uniq: "\<And>k. k < length cs \<and> x \<in> set (cs ! k) \<Longrightarrow> k = j"
      by blast
    have "i = Suc j" if "i < length (c # cs)" "x \<in> set ((c # cs) ! i)" for i
    proof (cases i)
      case 0
      with that False show ?thesis by simp
    next
      case (Suc k)
      with that uniq [of k] show ?thesis by simp
    qed
    with j show ?thesis
      by (intro ex1I [of _ "Suc j"]) auto
  qed
qed

lemma mset_concat_array_sort: "mset (concat (array_sort c xss)) = mset (concat xss)"
proof -
  have "mset (concat yss) = sum_mset (image_mset mset (mset yss))" for yss :: "'a list list"
    by (induction yss) simp_all
  then show ?thesis
    by (simp add: mset_array_sort)
qed

text \<open>
  Claim C2 (as amended). When the ids of the input records are pairwise distinct, the
  clusters returned by \<open>clusterFIRs\<close> partition the input: the concatenated clusters are
  a permutation of the input, every input record lies in exactly one cluster, and the
  cluster sizes sum to the number of input records. The visited set is keyed by the
  record id, so two records sharing an id are not both placed: see the counterexample.
\<close>

theorem clusterFIRs_partition:
  assumes "distinct (map fir_id rs)"
  shows "mset (concat (clusterFIRs rs radiusKm)) = mset rs \<and>
         (\<forall>fir \<in> set rs. \<exists>!i. i < length (clusterFIRs rs radiusKm) \<and>
              fir \<in> set (clusterFIRs rs radiusKm ! i)) \<and>
         sum_list (map length (clusterFIRs rs radiusKm)) = length rs"
proof -
  let ?cs = "clusterFIRs rs radiusKm"
  have cs: "?cs = array_sort (\<lambda>a b. int (length b) - int (length a))
                    (fst (fold (clusterStep rs radiusKm) rs ([], {})))"
    by (simp add: clusterFIRs_def split: prod.splits)
  have m: "mset (concat ?cs) = mset rs"
    unfolding cs using clusters_partition(1) [OF assms, of radiusKm]
    by (simp add: mset_concat_array_sort)
  have "distinct rs"
    using assms by (simp add: distinct_map)
  with m have d: "distinct (concat ?cs)"
    by (metis mset_eq_imp_distinct_iff)
  from m have s: "set (concat ?cs) = set rs"
    by (metis set_mset_mset)
  have u: "\<forall>fir \<in> set rs. \<exists>!i. i < length ?cs \<and> fir \<in> set (?cs ! i)"
    using concat_unique_index [OF d] s by blast
  have "sum_list (map length ?cs) = length (concat ?cs)"
    by (simp add: length_concat)
  also have "\<dots> = length rs"
    using m by (metis size_mset)
  finally show ?thesis
    using m u by blast
qed

theorem clusterFIRs_partition_witness:
  "distinct (map fir_id [firA, firB]) \<and>
   mset (concat (clusterFIRs [firA, firB] (1/2))) = mset [firA, firB] \<and>
   (\<exists>!i. i < length (clusterFIRs [firA, firB] (1/2)) \<and>
      firB \<in> set (clusterFIRs [firA, firB] (1/2) ! i)) \<and>
   sum_list (map length (clusterFIRs [firA, firB] (1/2))) = 2"
proof -
  have d: "distinct (map fir_id [firA, firB])"
    by (simp add: firA_def firB_def)
  from clusterFIRs_partition [OF d, of "1/2"] d show ?thesis
    by simp
qed

text \<open>
  Two records with the same id \<^verbatim>\<open>FIR001\<close>: the second one is skipped as visited and
  appears in no cluster, so the sizes sum to 1 for 2 input records.
\<close>

theorem clusterFIRs_duplicate_id_counterexample:
  "clusterFIRs [firA, firDup] (1/2) = [[firA]] \<and>
   firDup \<notin> set (concat (clusterFIRs [firA, firDup] (1/2))) \<and>
   sum_list (map length (clusterFIRs [firA, firDup] (1/2))) < length [firA, firDup]"
proof -
  let ?near = "findNearbyFIRs [firA, firDup] (latitude firA) (longitude firA) (1/2)"
  have ids: "fir_id firDup = fir_id firA"
    by (simp add: firA_def firDup_def)
  have "fir_id ` set ?near \<subseteq> insert (fir_id firA) {}"
    using findNearbyFIRs_subset [of "[firA, firDup]"] ids by fastforce
  then have a: "fold absorb ?near ([firA], insert (fir_id firA) {}) =
                  ([firA], insert (fir_id firA) {})"
    by (rule absorb_fold_visited)
  have s1: "clusterStep [firA, firDup] (1/2) firA ([], {}) = ([[firA]], {fir_id firA})"
    using a by (simp add: clusterStep_def)
  have s2: "clusterStep [firA, firDup] (1/2) firDup ([[firA]], {fir_id firA}) =
              ([[firA]], {fir_id firA})"
    using ids by (simp add: clusterStep_def)
  have c: "clusterFIRs [firA, firDup] (1/2) = [[firA]]"
    by (simp add: clusterFIRs_def s1 s2 array_sort_def)
  have "firDup \<noteq> firA"
    by (simp add: firA_def firDup_def)
  with c show ?thesis
    by simp
qed

section \<open>Cell ids and termination of the grid loops\<close>

text \<open>Distinct cell numbers print as distinct ids.\<close>

lemma digit_char_inj:
  "a < 10 \<Longrightarrow> b < 10 \<Longrightarrow> ''0123456789'' ! a = ''0123456789'' ! b \<Longrightarrow> a = b"
proof -
  have "distinct ''0123456789''" by simp
  moreover have "length ''0123456789'' = 10" by simp
  ultimately show "a < 10 \<Longrightarrow> b < 10 \<Longrightarrow> ''0123456789'' ! a = ''0123456789'' ! b \<Longrightarrow> a = b"
    by (metis nth_eq_iff_index_eq)
qed

lemma string_of_nat_small: "n < 10 \<Longrightarrow> string_of_nat n = [''0123456789'' ! n]"
  by (subst string_of_nat.simps) simp

lemma string_of_nat_large:
  "\<not> n < 10 \<Longrightarrow> string_of_nat n = string_of_nat (n div 10) @ [''0123456789'' ! (n mod 10)]"
  by (subst string_of_nat.simps) simp

lemma string_of_nat_nonempty: "string_of_nat n \<noteq> []"
  by (subst string_of_nat.simps) simp

lemma string_of_nat_inj: "string_of_nat n = string_of_nat m \<Longrightarrow> n = m"
proof (induction n arbitrary: m rule: less_induct)
  case (less n)
  show ?case
  proof (cases "n < 10")
    case True
    show ?thesis
    proof (cases "m < 10")
      case m: True
      with True less.prems show ?thesis
        by (auto simp: string_of_nat_small dest: digit_char_inj)
    next
      case False
      with True less.prems string_of_nat_nonempty [of "m div 10"] show ?thesis
        by (simp add: string_of_nat_small string_of_nat_large)
    qed
  next
    case False
    show ?thesis
    proof (cases "m < 10")
      case True
      with False less.prems string_of_nat_nonempty [of "n div 10"] show ?thesis
        by (simp add: string_of_nat_small string_of_nat_large)
    next
      case m: False
      with False less.prems have
        eq: "string_of_nat (n div 10) = string_of_nat (m div 10)"
        and d: "''0123456789'' ! (n mod 10) = ''0123456789'' ! (m mod 10)"
        by (simp_all add: string_of_nat_large)
      from False have "n div 10 < n" by simp
      from less.IH [OF this eq] have "n div 10 = m div 10" .
      moreover from d have "n mod 10 = m mod 10"
        by (intro digit_char_inj) simp_all
      ultimately show ?thesis
        by (metis div_mult_mod_eq)
    qed
  qed
qed

lemma gridId_inj: "gridId i = gridId j \<Longrightarrow> i = j"
  by (simp add: gridId_def string_of_nat_inj)

text \<open>
  With positive cell sizes both loops of \<open>createGrid\<close> end, so the grid is built. With a
  longitude step that is not positive the inner loop never ends on a non-empty region, and
  neither does \<open>detectHotspots\<close> on a non-empty record set.
\<close>

lemma createGrid_lng_returns:
  assumes "0 < lngGridSize config"
  shows "\<exists>y. createGrid_lng config la lo cells cellId = Some y"
proof (induction "nat \<lceil>(GridConfig.maxLng config - lo) / lngGridSize config\<rceil>"
    arbitrary: lo cells cellId rule: less_induct)
  case less
  show ?case
  proof (cases "lo < GridConfig.maxLng config")
    case True
    let ?w = "lngGridSize config"
    have pos: "0 < (GridConfig.maxLng config - lo) / ?w"
      using True assms by simp
    have "(GridConfig.maxLng config - (lo + ?w)) / ?w = (GridConfig.maxLng config - lo) / ?w - 1"
      using assms by (simp add: field_simps)
    then have "\<lceil>(GridConfig.maxLng config - (lo + ?w)) / ?w\<rceil> =
               \<lceil>(GridConfig.maxLng config - lo) / ?w\<rceil> - 1"
      by simp
    moreover have "0 < \<lceil>(GridConfig.maxLng config - lo) / ?w\<rceil>"
      using pos by simp
    ultimately have "nat \<lceil>(GridConfig.maxLng config - (lo + ?w)) / ?w\<rceil> <
                     nat \<lceil>(GridConfig.maxLng config - lo) / ?w\<rceil>"
      by simp
    from less [OF this] True show ?thesis
      by (subst createGrid_lng.simps) simp
  next
    case False
    then show ?thesis
      by (subst createGrid_lng.simps) simp
  qed
qed

lemma createGrid_lat_returns:
  assumes "0 < latGridSize config" and "0 < lngGridSize config"
  shows "\<exists>y. createGrid_lat config la cells cellId = Some y"
proof (induction "nat \<lceil>(GridConfig.maxLat config - la) / latGridSize config\<rceil>"
    arbitrary: la cells cellId rule: less_induct)
  case less
  show ?case
  proof (cases "la < GridConfig.maxLat config")
    case True
    let ?h = "latGridSize config"
    have pos: "0 < (GridConfig.maxLat config - la) / ?h"
      using True assms by simp
    have "(GridConfig.maxLat config - (la + ?h)) / ?h = (GridConfig.maxLat config - la) / ?h - 1"
      using assms by (simp add: field_simps)
    then have "\<lceil>(GridConfig.maxLat config - (la + ?h)) / ?h\<rceil> =
               \<lceil>(GridConfig.maxLat config - la) / ?h\<rceil> - 1"
      by simp
    moreover have "0 < \<lceil>(GridConfig.maxLat config - la) / ?h\<rceil>"
      using pos by simp
    ultimately have m: "nat \<lceil>(GridConfig.maxLat config - (la + ?h)) / ?h\<rceil> <
                        nat \<lceil>(GridConfig.maxLat config - la) / ?h\<rceil>"
      by simp
    from createGrid_lng_returns [OF assms(2), of la "GridConfig.minLng config" cells cellId]
    obtain cells' cellId' where
      row: "createGrid_lng config la (GridConfig.minLng config) cells cellId = Some (cells', cellId')"
      by (metis surj_pair)
    from less [OF m, of cells' cellId'] True row show ?thesis
      by (subst createGrid_lat.simps) simp
  next
    case False
    then show ?thesis
      by (subst createGrid_lat.simps) simp
  qed
qed

lemma createGrid_returns:
  "0 < latGridSize config \<Longrightarrow> 0 < lngGridSize config \<Longrightarrow> \<exists>grid. createGrid config = Some grid"
  by (simp add: createGrid_def createGrid_lat_returns)

lemma createGrid_lng_diverges:
  assumes "lngGridSize config \<le> 0" and "lo < GridConfig.maxLng config"
  shows "createGrid_lng config la lo cells cellId = None"
proof (rule ccontr)
  assume "createGrid_lng config la lo cells cellId \<noteq> None"
  then obtain y where y: "createGrid_lng config la lo cells cellId = Some y"
    by blast
  have "lngGridSize config \<le> 0 \<and> lo < GridConfig.maxLng config \<longrightarrow> False"
  proof (rule createGrid_lng.raw_induct
      [where P = "\<lambda>config la lo cells cellId y.
          lngGridSize config \<le> 0 \<and> lo < GridConfig.maxLng config \<longrightarrow> False", OF _ y])
    fix f config la lo cells cellId y
    assume IH: "\<And>config la lo cells cellId y. f config la lo cells cellId = Some y \<Longrightarrow>
        lngGridSize config \<le> 0 \<and> lo < GridConfig.maxLng config \<longrightarrow> False"
      and eq: "(if lo < GridConfig.maxLng config
          then f config la (lo + lngGridSize config)
                 (cells @ [newCell config cellId la lo]) (cellId + 1)
          else Some (cells, cellId)) = Some y"
    show "lngGridSize config \<le> 0 \<and> lo < GridConfig.maxLng config \<longrightarrow> False"
    proof
      assume a: "lngGridSize config \<le> 0 \<and> lo < GridConfig.maxLng config"
      with eq have "f config la (lo + lngGridSize config)
          (cells @ [newCell config cellId la lo]) (cellId + 1) = Some y"
        by simp
      from IH [OF this] a show False
        by simp
    qed
  qed
  with assms show False
    by simp
qed

lemma createGrid_diverges:
  assumes "lngGridSize config \<le> 0"
    and "GridConfig.minLat config < GridConfig.maxLat config"
    and "GridConfig.minLng config < GridConfig.maxLng config"
  shows "createGrid config = None" and "rs \<noteq> [] \<Longrightarrow> detectHotspots th clock rs config = None"
proof -
  show g: "createGrid config = None"
    unfolding createGrid_def
    by (subst createGrid_lat.simps) (simp add: assms createGrid_lng_diverges)
  show "rs \<noteq> [] \<Longrightarrow> detectHotspots th clock rs config = None"
    by (simp add: detectHotspots_def g)
qed

text \<open>The insight bundle of the empty record set.\<close>

lemma generateInsights_empty:
  "totalFIRs (generateInsights clock []) = 0 \<and> highRiskDays (generateInsights clock []) = [] \<and>
   predictedPeakHours (generateInsights clock []) = [0, 1, 2]"
proof -
  have "getPredictedPeakHours [] = [0, 1, 2]"
    by code_simp
  moreover have "filter (\<lambda>d. 0 < DayCount.count d) (getDayWiseTrends []) = []"
    by (simp add: getDayWiseTrends_def dayNames_def countOf_def)
  moreover have "foldl (\<lambda>sum d. sum + DayCount.count d) 0 (getDayWiseTrends []) = 0"
    by (simp add: getDayWiseTrends_def dayNames_def countOf_def)
  ultimately show ?thesis
    by (simp add: generateInsights_def Let_def)
qed

section \<open>Properties of the grid partitioner and the hotspot classifier\<close>

lemma newCell_pushed:
  "la < GridConfig.maxLat config \<Longrightarrow> lo < GridConfig.maxLng config \<Longrightarrow>
   pushedCell config (newCell config k la lo) \<and> cell_id (newCell config k la lo) = gridId k"
  by (simp add: pushedCell_def newCell_def gridId_def Let_def)

lemma pushedCells_Nil: "pushedCells config k []"
  by (simp add: pushedCells_def)

lemma pushedCells_Cons:
  assumes "pushedCell config c" and "cell_id c = gridId k" and "pushedCells config (Suc k) new"
  shows "pushedCells config k (c # new)"
proof -
  have "[k..<k + length (c # new)] = k # [Suc k..<Suc k + length new]"
    by (subst upt_rec) simp
  with assms show ?thesis
    by (simp add: pushedCells_def)
qed

lemma pushedCells_append:
  "pushedCells config k xs \<Longrightarrow> pushedCells config (k + length xs) ys \<Longrightarrow>
   pushedCells config k (xs @ ys)"
proof -
  have "[k..<k + (length xs + length ys)] = [k..<k + length xs] @ [k + length xs..<k + length xs + length ys]"
    by (metis add.assoc le_add1 upt_add_eq_append)
  then show "pushedCells config k xs \<Longrightarrow> pushedCells config (k + length xs) ys \<Longrightarrow>
   pushedCells config k (xs @ ys)"
    by (simp add: pushedCells_def)
qed

lemma createGrid_lng_result_aux:
  assumes "createGrid_lng config la lo cells cellId = Some y"
  shows "la < GridConfig.maxLat config \<longrightarrow>
         (\<exists>new. y = (cells @ new, cellId + length new) \<and> pushedCells config cellId new)"
proof (rule createGrid_lng.raw_induct
    [where P = "\<lambda>config la lo cells cellId y. la < GridConfig.maxLat config \<longrightarrow>
         (\<exists>new. y = (cells @ new, cellId + length new) \<and> pushedCells config cellId new)",
     OF _ assms])
  fix f config la lo cells cellId y
  assume IH: "\<And>config la lo cells cellId y. f config la lo cells cellId = Some y \<Longrightarrow>
      la < GridConfig.maxLat config \<longrightarrow>
      (\<exists>new. y = (cells @ new, cellId + length new) \<and> pushedCells config cellId new)"
    and eq: "(if lo < GridConfig.maxLng config
        then f config la (lo + lngGridSize config)
               (cells @ [newCell config cellId la lo]) (cellId + 1)
        else Some (cells, cellId)) = Some y"
  show "la < GridConfig.maxLat config \<longrightarrow>
      (\<exists>new. y = (cells @ new, cellId + length new) \<and> pushedCells config cellId new)"
  proof
    assume la: "la < GridConfig.maxLat config"
    show "\<exists>new. y = (cells @ new, cellId + length new) \<and> pushedCells config cellId new"
    proof (cases "lo < GridConfig.maxLng config")
      case True
      with eq have "f config la (lo + lngGridSize config)
          (cells @ [newCell config cellId la lo]) (cellId + 1) = Some y"
        by simp
      from IH [OF this] la obtain new where
        new: "y = ((cells @ [newCell config cellId la lo]) @ new, cellId + 1 + length new)"
          "pushedCells config (cellId + 1) new"
        by blast
      have "pushedCells config cellId (newCell config cellId la lo # new)"
        using newCell_pushed [OF la True, of cellId] new(2)
        by (intro pushedCells_Cons) simp_all
      with new(1) show ?thesis
        by (intro exI [of _ "newCell config cellId la lo # new"]) simp
    next
      case False
      with eq show ?thesis
        by (intro exI [of _ "[]"]) (simp add: pushedCells_Nil)
    qed
  qed
qed

lemma createGrid_lat_result:
  assumes "createGrid_lat config la cells cellId = Some y"
  shows "\<exists>new. y = cells @ new \<and> pushedCells config cellId new"
proof (rule createGrid_lat.raw_induct
    [where P = "\<lambda>config la cells cellId y.
         \<exists>new. y = cells @ new \<and> pushedCells config cellId new", OF _ assms])
  fix f config la cells cellId y
  assume IH: "\<And>config la cells cellId y. f config la cells cellId = Some y \<Longrightarrow>
      \<exists>new. y = cells @ new \<and> pushedCells config cellId new"
    and eq: "(if la < GridConfig.maxLat config
        then Option.bind (createGrid_lng config la (GridConfig.minLng config) cells cellId)
               (\<lambda>(cells', cellId'). f config (la + latGridSize config) cells' cellId')
        else Some cells) = Some y"
  show "\<exists>new. y = cells @ new \<and> pushedCells config cellId new"
  proof (cases "la < GridConfig.maxLat config")
    case True
    with eq obtain cells' cellId' where
      inner: "createGrid_lng config la (GridConfig.minLng config) cells cellId = Some (cells', cellId')"
      and rest: "f config (la + latGridSize config) cells' cellId' = Some y"
      by (auto simp: bind_eq_Some_conv)
    from createGrid_lng_result_aux [OF inner] True obtain row where
      row: "cells' = cells @ row" "cellId' = cellId + length row" "pushedCells config cellId row"
      by blast
    from IH [OF rest] obtain new where
      new: "y = cells' @ new" "pushedCells config cellId' new"
      by blast
    from row new have "pushedCells config cellId (row @ new)"
      by (intro pushedCells_append) simp_all
    with row new show ?thesis
      by (intro exI [of _ "row @ new"]) simp
  next
    case False
    with eq show ?thesis
      by (intro exI [of _ "[]"]) (simp add: pushedCells_Nil)
  qed
qed

lemma createGrid_result:
  "createGrid config = Some grid \<Longrightarrow> pushedCells config 0 grid"
  using createGrid_lat_result [of config "GridConfig.minLat config" "[]" 0 grid]
  by (simp add: createGrid_def)


lemma cellContains_cellFrame [simp]: "cellContains (cellFrame c) f = cellContains c f"
  by (simp add: cellContains_def cellFrame_def)

lemma cell_id_cellFrame [simp]: "cell_id (cellFrame c) = cell_id c"
  by (simp add: cellFrame_def)

lemma assignFIR_frame: "map cellFrame (assignFIR f grid) = map cellFrame grid"
  by (induction grid) (simp_all add: cellFrame_def)

lemma assignFIRsToGrid_frame: "map cellFrame (assignFIRsToGrid rs grid) = map cellFrame grid"
  by (induction rs arbitrary: grid) (simp_all add: assignFIRsToGrid_def assignFIR_frame)






lemma collectHotspots_zoneId:
  "map zoneId (collectHotspots th clock n grid hs) =
   map zoneId hs @ map cell_id (filter (\<lambda>c. GridCell.firCount c > 0) grid)"
  by (induction grid arbitrary: hs) simp_all



lemma detectHotspots_Some:
  "createGrid config = Some grid \<Longrightarrow>
   detectHotspots th clock rs config =
     Some (if rs = [] then []
           else array_sort (\<lambda>a b. int (Hotspot.firCount b) - int (Hotspot.firCount a))
                  (collectHotspots th clock (length rs) (assignFIRsToGrid rs grid) []))"
  by (simp add: detectHotspots_def)










text \<open>
  Claim C9. On the empty record set \<open>detectHotspots\<close> returns the empty list (before any
  grid is built), \<open>clusterFIRs\<close> and \<open>findNearbyFIRs\<close> return the empty list,
  \<open>calculateBounds\<close> returns the default region of \<open>DEFAULT_GRID_CONFIG\<close>,
  \<open>getCenter\<close> returns \<open>null\<close>, and \<open>generateInsights\<close> returns a bundle of zero
  counts. No operation has an error result on any input.
\<close>

theorem empty_input_defaults:
  "detectHotspots th clock [] config = Some [] \<and>
   clusterFIRs [] r = [] \<and>
   findNearbyFIRs [] a b r = [] \<and>
   calculateBounds [] = \<lparr>Bounds.minLat = 28.4, Bounds.maxLat = 28.9,
                          Bounds.minLng = 76.8, Bounds.maxLng = 77.4\<rparr> \<and>
   getCenter [] = None \<and>
   totalFIRs (generateInsights clock []) = 0 \<and>
   highRiskDays (generateInsights clock []) = [] \<and>
   predictedPeakHours (generateInsights clock []) = [0, 1, 2]"
  using generateInsights_empty [of clock]
  by (simp add: detectHotspots_def clusterFIRs_def findNearbyFIRs_def calculateBounds_def
      getCenter_def DEFAULT_GRID_CONFIG_def array_sort_def)

section \<open>Order of the hotspot list\<close>

lemma sort_insert_countDesc:
  assumes "sorted_wrt (countDescThen key tie) ys" and "\<forall>y \<in> set ys. tie x y"
  shows "sorted_wrt (countDescThen key tie) (sort_insert (\<lambda>a b. int (key b) - int (key a)) x ys)"
  using assms
proof (induction ys)
  case Nil
  show ?case by simp
next
  case (Cons y ys)
  show ?case
  proof (cases "key y \<le> key x")
    case True
    have "countDescThen key tie x z" if "z \<in> set (y # ys)" for z
    proof -
      have "key z \<le> key y"
        using that Cons.prems(1) by (auto simp: countDescThen_def)
      with True have "key z \<le> key x" by simp
      moreover have "tie x z" using that Cons.prems(2) by blast
      ultimately show ?thesis
        by (auto simp: countDescThen_def)
    qed
    with True Cons.prems(1) show ?thesis
      by simp
  next
    case False
    then have "countDescThen key tie y x"
      by (simp add: countDescThen_def)
    with False Cons show ?thesis
      by (auto simp: set_sort_insert)
  qed
qed

lemma array_sort_countDesc:
  assumes "sorted_wrt tie xs"
  shows "sorted_wrt (countDescThen key tie) (array_sort (\<lambda>a b. int (key b) - int (key a)) xs)"
  using assms
proof (induction xs)
  case Nil
  show ?case by (simp add: array_sort_def)
next
  case (Cons x xs)
  then have "sorted_wrt (countDescThen key tie) (array_sort (\<lambda>a b. int (key b) - int (key a)) xs)"
    and "\<forall>y \<in> set (array_sort (\<lambda>a b. int (key b) - int (key a)) xs). tie x y"
    by (simp_all add: set_array_sort)
  then have "sorted_wrt (countDescThen key tie)
      (sort_insert (\<lambda>a b. int (key b) - int (key a)) x (array_sort (\<lambda>a b. int (key b) - int (key a)) xs))"
    by (rule sort_insert_countDesc)
  then show ?case
    by (simp add: array_sort_def)
qed

lemma countDescThen_desc:
  "sorted_wrt (countDescThen key tie) xs \<Longrightarrow> sorted_wrt (\<lambda>a b. key b \<le> key a) xs"
  by (rule sorted_wrt_mono_rel [where P = "countDescThen key tie"])
     (auto simp: countDescThen_def)

lemma numbered_sorted:
  assumes "map f xs = map g ks" and "sorted_wrt (<) ks"
  shows "sorted_wrt (\<lambda>a b. \<exists>i j. i < (j::nat) \<and> f a = g i \<and> f b = g j) xs"
  using assms
proof (induction xs arbitrary: ks)
  case Nil
  show ?case by simp
next
  case (Cons x xs)
  then obtain k ks' where ks: "ks = k # ks'" "f x = g k" "map f xs = map g ks'"
    by (cases ks) auto
  with Cons.prems(2) have lt: "\<forall>j \<in> set ks'. k < j" and s: "sorted_wrt (<) ks'"
    by simp_all
  have "\<exists>i j. i < j \<and> f x = g i \<and> f y = g j" if "y \<in> set xs" for y
  proof -
    from that have "f y \<in> set (map g ks')"
      using ks(3) by (metis image_eqI set_map)
    then obtain j where "j \<in> set ks'" "f y = g j"
      by auto
    with lt ks(2) show ?thesis
      by blast
  qed
  with Cons.IH [OF ks(3) s] show ?case
    by simp
qed

lemma assignFIRsToGrid_cell_id:
  "map cell_id (assignFIRsToGrid rs grid) = map cell_id grid"
proof -
  have "map cell_id g = map cell_id (map cellFrame g)" for g
    by simp
  then show ?thesis
    by (metis assignFIRsToGrid_frame)
qed

text \<open>
  Claim C5. The list returned by \<open>detectHotspots\<close> is sorted non-increasing by
  \<open>firCount\<close>, and hotspots with equal \<open>firCount\<close> appear in the generation order of
  their cells: the cell of the earlier one has the smaller number in its id
  \<^verbatim>\<open>GRID_n\<close>, the counter that the row-major loops of \<open>createGrid\<close> increment
  (distinct numbers give distinct ids).
\<close>

theorem detectHotspots_sorted_stable:
  assumes "detectHotspots th clock rs config = Some hotspots"
  shows "sorted_wrt (\<lambda>a b. Hotspot.firCount a \<ge> Hotspot.firCount b) hotspots \<and>
         sorted_wrt (countDescThen Hotspot.firCount
           (\<lambda>a b. \<exists>i j. i < j \<and> zoneId a = gridId i \<and> zoneId b = gridId j)) hotspots \<and>
         inj gridId"
proof -
  let ?tie = "\<lambda>a b. \<exists>i j. i < j \<and> zoneId a = gridId i \<and> zoneId b = gridId j"
  have main: "sorted_wrt (countDescThen Hotspot.firCount ?tie) hotspots"
  proof (cases "rs = []")
    case True
    with assms show ?thesis
      by (simp add: detectHotspots_def)
  next
    case False
    with assms obtain grid where grid: "createGrid config = Some grid"
      by (auto simp: detectHotspots_def bind_eq_Some_conv)
    let ?grid' = "assignFIRsToGrid rs grid"
    let ?hs = "collectHotspots th clock (length rs) ?grid' []"
    from assms False have hs: "hotspots =
        array_sort (\<lambda>a b. int (Hotspot.firCount b) - int (Hotspot.firCount a)) ?hs"
      by (simp add: detectHotspots_Some [OF grid])
    from createGrid_result [OF grid] have "map cell_id grid = map gridId [0..<length grid]"
      by (simp add: pushedCells_def)
    then have "map cell_id ?grid' = map gridId [0..<length grid]"
      by (simp add: assignFIRsToGrid_cell_id)
    then have "sorted_wrt (\<lambda>c d. \<exists>i j. i < j \<and> cell_id c = gridId i \<and> cell_id d = gridId j) ?grid'"
      by (rule numbered_sorted) simp
    then have "sorted_wrt (\<lambda>c d. \<exists>i j. i < j \<and> cell_id c = gridId i \<and> cell_id d = gridId j)
        (filter (\<lambda>c. GridCell.firCount c > 0) ?grid')"
      by (rule sorted_wrt_filter)
    then have "sorted_wrt (\<lambda>a b. \<exists>i j. i < j \<and> a = gridId i \<and> b = gridId j)
        (map cell_id (filter (\<lambda>c. GridCell.firCount c > 0) ?grid'))"
      by (simp add: sorted_wrt_map)
    then have "sorted_wrt (\<lambda>a b. \<exists>i j. i < j \<and> a = gridId i \<and> b = gridId j) (map zoneId ?hs)"
      by (simp add: collectHotspots_zoneId)
    then have "sorted_wrt ?tie ?hs"
      by (simp add: sorted_wrt_map)
    then show ?thesis
      unfolding hs by (rule array_sort_countDesc)
  qed
  have "inj gridId"
    by (rule injI) (rule gridId_inj)
  with countDescThen_desc [OF main] main show ?thesis
    by simp
qed

theorem detectHotspots_sorted_stable_witness:
  "detectHotspots sampleThresholds clock0 [firC, firA] unitConfig =
     Some [\<lparr>zoneId = ''GRID_0'', zoneName = ''Zone 0'', centerLat = 1/4, centerLng = 1/4,
            firCount = 1, severity = Low, percentage = 50, lastUpdated = 1000\<rparr>,
           \<lparr>zoneId = ''GRID_3'', zoneName = ''Zone 3'', centerLat = 3/4, centerLng = 3/4,
            firCount = 1, severity = Low, percentage = 50, lastUpdated = 1001\<rparr>] \<and>
   countDescThen Hotspot.firCount
     (\<lambda>a b. \<exists>i j. i < j \<and> zoneId a = gridId i \<and> zoneId b = gridId j)
     \<lparr>zoneId = ''GRID_0'', zoneName = ''Zone 0'', centerLat = 1/4, centerLng = 1/4,
      firCount = 1, severity = Low, percentage = 50, lastUpdated = 1000\<rparr>
     \<lparr>zoneId = ''GRID_3'', zoneName = ''Zone 3'', centerLat = 3/4, centerLng = 3/4,
      firCount = 1, severity = Low, percentage = 50, lastUpdated = 1001\<rparr>"
proof -
  have e: "detectHotspots sampleThresholds clock0 [firC, firA] unitConfig =
     Some [\<lparr>zoneId = ''GRID_0'', zoneName = ''Zone 0'', centerLat = 1/4, centerLng = 1/4,
            firCount = 1, severity = Low, percentage = 50, lastUpdated = 1000\<rparr>,
           \<lparr>zoneId = ''GRID_3'', zoneName = ''Zone 3'', centerLat = 3/4, centerLng = 3/4,
            firCount = 1, severity = Low, percentage = 50, lastUpdated = 1001\<rparr>]"
    by code_simp
  from detectHotspots_sorted_stable [OF e] e show ?thesis
    by simp
qed

section \<open>Properties of the insight service\<close>

lemma countOf_bump:
  "countOf (bump k counts) k' = countOf counts k' + (if k = k' then 1 else 0)"
  by (induction counts) (auto simp: countOf_def)

lemma countOf_fold_bump:
  "countOf (fold (\<lambda>f m. bump (key f) m) rs m0) k =
   countOf m0 k + length (filter (\<lambda>f. key f = k) rs)"
  by (induction rs arbitrary: m0) (simp_all add: countOf_bump)

lemma getPeakHours_buckets:
  "getPeakHours rs =
   array_sort (\<lambda>a b. int (HourCount.count b) - int (HourCount.count a))
     (map (\<lambda>i. \<lparr>hour = i, HourCount.count = hourCount rs i\<rparr>) [0..<24])"
proof -
  have "countOf (fold (\<lambda>f m. bump (hourOf f) m) rs []) (Some (int i)) = hourCount rs i" for i
    using countOf_fold_bump [of hourOf rs "[]" "Some (int i)"]
    by (simp add: hourCount_def countOf_def)
  then show ?thesis
    by (simp add: getPeakHours_def)
qed

lemma getPeakHours_sorted:
  "sorted_wrt (countDescThen HourCount.count (\<lambda>a b. hour a < hour b)) (getPeakHours rs)"
proof -
  have "sorted_wrt (\<lambda>a b. hour a < hour b)
      (map (\<lambda>i. \<lparr>hour = i, HourCount.count = hourCount rs i\<rparr>) [0..<24])"
    by (simp add: sorted_wrt_map)
  then show ?thesis
    unfolding getPeakHours_buckets by (rule array_sort_countDesc)
qed

lemma map_hour_buckets:
  "map hour (map (\<lambda>i. \<lparr>hour = i, HourCount.count = g i\<rparr>) xs) = xs"
  by (induction xs) simp_all

lemma getPeakHours_hours: "mset (map hour (getPeakHours rs)) = mset [0..<24]"
proof -
  have "mset (map hour (array_sort c xs)) = mset (map hour xs)" for c xs
    by (simp add: mset_array_sort)
  then have "mset (map hour (getPeakHours rs)) =
      mset (map hour (map (\<lambda>i. \<lparr>hour = i, HourCount.count = hourCount rs i\<rparr>) [0..<24]))"
    unfolding getPeakHours_buckets by blast
  then show ?thesis
    by (simp only: map_hour_buckets)
qed

lemma getPeakHours_count:
  "b \<in> set (getPeakHours rs) \<Longrightarrow> HourCount.count b = hourCount rs (hour b)"
  unfolding getPeakHours_buckets set_array_sort by auto

text \<open>
  Claim C7. The predicted peak hours are three distinct hours of the 24-bucket histogram;
  every hour left out has a smaller count than each of them, or the same count and a
  larger hour number; and the three are listed by decreasing count, equal counts by
  increasing hour. The count of an hour is the number of records whose time parses to it.
\<close>

theorem predicted_peak_hours_top3:
  "length (getPredictedPeakHours rs) = 3 \<and>
   distinct (getPredictedPeakHours rs) \<and>
   (\<forall>h \<in> set (getPredictedPeakHours rs). h < 24) \<and>
   (\<forall>h \<in> set (getPredictedPeakHours rs). \<forall>g < 24. g \<notin> set (getPredictedPeakHours rs) \<longrightarrow>
      hourCount rs g < hourCount rs h \<or> (hourCount rs g = hourCount rs h \<and> h < g)) \<and>
   sorted_wrt (\<lambda>h g. hourCount rs g < hourCount rs h \<or> (hourCount rs g = hourCount rs h \<and> h < g))
     (getPredictedPeakHours rs)"
proof -
  let ?L = "getPeakHours rs"
  let ?R = "countDescThen HourCount.count (\<lambda>a b. hour a < hour b)"
  have ph: "getPredictedPeakHours rs = map hour (take 3 ?L)"
    by (simp add: getPredictedPeakHours_def)
  have len: "length ?L = 24"
    using getPeakHours_hours [of rs] by (metis length_map length_upt size_mset diff_zero)
  have hours: "set (map hour ?L) = {0..<24}"
    using getPeakHours_hours [of rs] by (metis set_mset_mset set_upt)
  have dist: "distinct (map hour ?L)"
    using getPeakHours_hours [of rs] by (metis distinct_upt mset_eq_imp_distinct_iff)
  have "sorted_wrt ?R (take 3 ?L @ drop 3 ?L)"
    using getPeakHours_sorted [of rs] by simp
  then have sorted3: "sorted_wrt ?R (take 3 ?L)"
    and cross: "\<forall>x \<in> set (take 3 ?L). \<forall>y \<in> set (drop 3 ?L). ?R x y"
    unfolding sorted_wrt_append by blast+
  have R: "hourCount rs (hour b) < hourCount rs (hour a) \<or>
           (hourCount rs (hour b) = hourCount rs (hour a) \<and> hour a < hour b)"
    if "?R a b" "a \<in> set ?L" "b \<in> set ?L" for a b
    using that getPeakHours_count [of a rs] getPeakHours_count [of b rs]
    by (auto simp: countDescThen_def)
  have c1: "length (getPredictedPeakHours rs) = 3"
    by (simp add: ph len)
  have c2: "distinct (getPredictedPeakHours rs)"
    unfolding ph using dist by (metis distinct_take take_map)
  have c3: "\<forall>h \<in> set (getPredictedPeakHours rs). h < 24"
  proof
    fix h assume "h \<in> set (getPredictedPeakHours rs)"
    then have "h \<in> set (map hour ?L)"
      unfolding ph by (auto dest: in_set_takeD)
    with hours show "h < 24" by simp
  qed
  have c4: "\<forall>h \<in> set (getPredictedPeakHours rs). \<forall>g < 24. g \<notin> set (getPredictedPeakHours rs) \<longrightarrow>
      hourCount rs g < hourCount rs h \<or> (hourCount rs g = hourCount rs h \<and> h < g)"
  proof (intro ballI allI impI)
    fix h g :: nat
    assume h: "h \<in> set (getPredictedPeakHours rs)" and g: "g < 24"
      and out: "g \<notin> set (getPredictedPeakHours rs)"
    from h obtain a where a: "a \<in> set (take 3 ?L)" "h = hour a"
      unfolding ph by auto
    from g hours obtain b where b: "b \<in> set ?L" "g = hour b"
      by (metis (no_types, lifting) atLeastLessThan_iff image_iff le0 set_map)
    have "b \<notin> set (take 3 ?L)"
      using out b(2) unfolding ph by auto
    with b(1) have bd: "b \<in> set (drop 3 ?L)"
      by (metis Un_iff append_take_drop_id set_append)
    from cross a(1) bd have "?R a b"
      by blast
    moreover have "a \<in> set ?L"
      using a(1) by (rule in_set_takeD)
    ultimately show "hourCount rs g < hourCount rs h \<or> (hourCount rs g = hourCount rs h \<and> h < g)"
      using R [of a b] b a(2) by simp
  qed
  from sorted3 have "sorted_wrt (\<lambda>a b. hourCount rs (hour b) < hourCount rs (hour a) \<or>
           (hourCount rs (hour b) = hourCount rs (hour a) \<and> hour a < hour b)) (take 3 ?L)"
  proof (rule sorted_wrt_mono_rel [rotated])
    fix a b
    assume "a \<in> set (take 3 ?L)" "b \<in> set (take 3 ?L)" "?R a b"
    then show "hourCount rs (hour b) < hourCount rs (hour a) \<or>
           (hourCount rs (hour b) = hourCount rs (hour a) \<and> hour a < hour b)"
      by (intro R) (auto dest: in_set_takeD)
  qed
  then have c5: "sorted_wrt (\<lambda>h g. hourCount rs g < hourCount rs h \<or>
      (hourCount rs g = hourCount rs h \<and> h < g)) (getPredictedPeakHours rs)"
    unfolding ph by (simp add: sorted_wrt_map)
  from c1 c2 c3 c4 c5 show ?thesis
    by blast
qed

theorem predicted_peak_hours_top3_witness:
  "getPredictedPeakHours [firA, firB, firC] = [14, 9, 0] \<and>
   hourCount [firA, firB, firC] 14 = 2 \<and>
   (hourCount [firA, firB, firC] 1 < hourCount [firA, firB, firC] 0 \<or>
    hourCount [firA, firB, firC] 1 = hourCount [firA, firB, firC] 0 \<and> (0::nat) < 1)"
proof -
  have e: "getPredictedPeakHours [firA, firB, firC] = [14, 9, 0]"
    by code_simp
  have c: "hourCount [firA, firB, firC] 14 = 2"
    by code_simp
  from predicted_peak_hours_top3 [of "[firA, firB, firC]"]
  have "\<forall>h \<in> set (getPredictedPeakHours [firA, firB, firC]). \<forall>g < 24.
      g \<notin> set (getPredictedPeakHours [firA, firB, firC]) \<longrightarrow>
      hourCount [firA, firB, firC] g < hourCount [firA, firB, firC] h \<or>
      (hourCount [firA, firB, firC] g = hourCount [firA, firB, firC] h \<and> h < g)"
    by blast
  then have "hourCount [firA, firB, firC] 1 < hourCount [firA, firB, firC] 0 \<or>
      (hourCount [firA, firB, firC] 1 = hourCount [firA, firB, firC] 0 \<and> (0::nat) < 1)"
    unfolding e by simp
  with e c show ?thesis
    by blast
qed

section \<open>Dependence on the clock\<close>






end
